theory Spec2Isabelle
  imports Complex_Main "HOL-Library.AList"
begin

section \<open>TaskForge: a shallow embedding of \<^verbatim>\<open>src/taskforge.py\<close>\<close>

text \<open>
  The scheduler keeps two dictionaries, \<^verbatim>\<open>tasks\<close> and \<^verbatim>\<open>groups\<close>. Both are modelled as
  association lists in insertion order (Python dictionaries keep it, and
  \<^verbatim>\<open>list(self.tasks.keys())\<close> depends on it); a task record is a finite map from the key
  string to a value. Every \<^verbatim>\<open>raise\<close> of the source is a value of the type \<open>error\<close>.
  Operations that mutate the scheduler return the scheduler together with their result,
  because a Python operation that raises keeps the mutations it made before.
\<close>

subsection \<open>Floating-point values and the builtin \<^verbatim>\<open>float\<close>\<close>

text \<open>
  A Python float is modelled as an exact rational or one of the three special values.
  Rounding to binary64 is not modelled, and the two signed zeros are one value (they
  compare equal in Python as well). The constants of the source (60, 3600, 86400, 1000)
  and all values named below are exactly representable, so nothing is lost there.
\<close>

datatype pyfloat = Fin rat | PInf | NInf | NaN

fun fneg :: "pyfloat \<Rightarrow> pyfloat" where
  "fneg (Fin r) = Fin (- r)"
| "fneg PInf = NInf"
| "fneg NInf = PInf"
| "fneg NaN = NaN"

fun fsign :: "pyfloat \<Rightarrow> int" where
  "fsign (Fin r) = (if r < 0 then - 1 else if r = 0 then 0 else 1)"
| "fsign PInf = 1"
| "fsign NInf = - 1"
| "fsign NaN = 0"

text \<open>\<^verbatim>\<open>x < 0\<close> and \<^verbatim>\<open>x > 0\<close>: every comparison with NaN is false.\<close>

fun flt0 :: "pyfloat \<Rightarrow> bool" where
  "flt0 (Fin r) = (r < 0)"
| "flt0 PInf = False"
| "flt0 NInf = True"
| "flt0 NaN = False"


fun fmul :: "pyfloat \<Rightarrow> pyfloat \<Rightarrow> pyfloat" where
  "fmul (Fin a) (Fin b) = Fin (a * b)"
| "fmul NaN y = NaN"
| "fmul x NaN = NaN"
| "fmul x y =
     (let s = fsign x * fsign y in if s = 0 then NaN else if 0 < s then PInf else NInf)"



text \<open>\<^verbatim>\<open>x / c\<close> for a positive finite constant \<open>c\<close> (the source only divides by 1000).\<close>

fun fdiv_const :: "pyfloat \<Rightarrow> rat \<Rightarrow> pyfloat" where
  "fdiv_const (Fin a) c = Fin (a / c)"
| "fdiv_const x c = x"

subsection \<open>Values and errors\<close>

text \<open>
  A callable is known by its \<^verbatim>\<open>__name__\<close>: the wrapper that \<^verbatim>\<open>every\<close> builds for a
  function, the wrapper that \<^verbatim>\<open>after\<close> builds (\<^verbatim>\<open>functools.wraps\<close> keeps the name), or any
  other function. The values are those the annotated interface stores in a task record.
\<close>

datatype func = Periodic string | OneShot string | Plain string


datatype val = VNone | VBool bool | VInt int | VFloat pyfloat | VStr string | VFunc func

text \<open>Python's truth value of an object.\<close>

fun truthy :: "val \<Rightarrow> bool" where
  "truthy VNone = False"
| "truthy (VBool b) = b"
| "truthy (VInt n) = (n \<noteq> 0)"
| "truthy (VFloat x) = (x \<noteq> Fin 0)"
| "truthy (VStr s) = (s \<noteq> [])"
| "truthy (VFunc f) = True"

datatype error =
    InvalidIntervalFormat            \<comment> \<open>\<^verbatim>\<open>ValueError("Invalid interval format")\<close>\<close>
  | FloatFormat string               \<comment> \<open>the \<^verbatim>\<open>ValueError\<close> of \<^verbatim>\<open>float(s)\<close>\<close>
  | NegativeInterval                 \<comment> \<open>\<^verbatim>\<open>ValueError("Interval must be non-negative")\<close>\<close>
  | GroupNotFound string             \<comment> \<open>\<^verbatim>\<open>ValueError(f"Group '{target}' not found")\<close>\<close>
  | TaskExists string                \<comment> \<open>\<^verbatim>\<open>NameError(f"Task '{task_name}' already exists.")\<close>\<close>
  | TaskNotFound string              \<comment> \<open>\<^verbatim>\<open>ValueError(f"Task '{task_name}' not found")\<close>\<close>
  | TargetNotFound val               \<comment> \<open>\<^verbatim>\<open>ValueError(f"Task '{task}' not found.")\<close> of \<^verbatim>\<open>run\<close>\<close>
  | PropertyNotFound string string   \<comment> \<open>\<^verbatim>\<open>ValueError(f"Property '{prop}' does not exist ...")\<close>\<close>
  | ArgsNotSequence val              \<comment> \<open>\<^verbatim>\<open>ValueError(f"Arguments for task '{task}' must be ...")\<close>\<close>
  | TaskError string string          \<comment> \<open>\<^verbatim>\<open>RuntimeError(f"Error in task '{name}': {e}")\<close>\<close>
  | KeyError string                  \<comment> \<open>a dictionary read of a missing key\<close>
  | NotInList string                 \<comment> \<open>the \<^verbatim>\<open>ValueError\<close> of \<^verbatim>\<open>list.remove\<close>\<close>
  | TypeError                        \<comment> \<open>an operand of the wrong type\<close>
  | AttributeError                   \<comment> \<open>\<^verbatim>\<open>endswith\<close> on a value that is not a string\<close>
  | SleepValueError                  \<comment> \<open>\<^verbatim>\<open>time.sleep\<close> of a negative length or of NaN\<close>
  | OverflowError                    \<comment> \<open>\<^verbatim>\<open>time.sleep\<close> of a length beyond the clock's range\<close>
  | OutOfModel                       \<comment> \<open>an input the embedding does not cover (see \<open>edit\<close>)\<close>

text \<open>
  \<^verbatim>\<open>float(s)\<close> on an ASCII string, as CPython reads it: leading and trailing whitespace
  is dropped; an underscore is allowed only between two digits and is then ignored; an
  optional sign is followed by \<^verbatim>\<open>inf\<close>, \<^verbatim>\<open>infinity\<close> or \<^verbatim>\<open>nan\<close> in any letter case, or by a
  decimal numeral: digits with an optional point (at least one digit on one side of it) and
  an optional exponent \<^verbatim>\<open>e\<close> or \<^verbatim>\<open>E\<close>, optional sign, digits.
\<close>

definition is_space :: "char \<Rightarrow> bool" where
  "is_space c = (c \<in> set [CHR '' '', CHR 0x09, CHR 0x0A, CHR 0x0B, CHR 0x0C, CHR 0x0D])"

definition is_digit :: "char \<Rightarrow> bool" where
  "is_digit c = (c \<in> set ''0123456789'')"

definition strip :: "string \<Rightarrow> string" where
  "strip s = dropWhile is_space (rev (dropWhile is_space (rev s)))"

fun underscores_ok :: "char \<Rightarrow> string \<Rightarrow> bool" where
  "underscores_ok prev [] = (prev \<noteq> CHR ''_'')"
| "underscores_ok prev (c # cs) =
     ((if c = CHR ''_'' then is_digit prev else if prev = CHR ''_'' then is_digit c else True)
      \<and> underscores_ok c cs)"

definition digit_val :: "char \<Rightarrow> nat" where
  "digit_val c = of_char c - 48"

definition digits_val :: "string \<Rightarrow> nat" where
  "digits_val s = foldl (\<lambda>acc c. 10 * acc + digit_val c) 0 s"

definition all_digits :: "string \<Rightarrow> bool" where
  "all_digits s = list_all is_digit s"

text \<open>The letters of \<^verbatim>\<open>infinity\<close> and \<^verbatim>\<open>nan\<close> in lower case; other characters are kept.\<close>

definition lower :: "char \<Rightarrow> char" where
  "lower c =
     (if c = CHR ''I'' then CHR ''i'' else if c = CHR ''N'' then CHR ''n''
      else if c = CHR ''F'' then CHR ''f'' else if c = CHR ''T'' then CHR ''t''
      else if c = CHR ''Y'' then CHR ''y'' else if c = CHR ''A'' then CHR ''a'' else c)"

definition is_exp_mark :: "char \<Rightarrow> bool" where
  "is_exp_mark c = (c = CHR ''e'' \<or> c = CHR ''E'')"

definition parse_exponent :: "string \<Rightarrow> int option" where
  "parse_exponent x =
     (case x of
        [] \<Rightarrow> Some 0
      | m # r \<Rightarrow>
          (let neg = (r \<noteq> [] \<and> hd r = CHR ''-'');
               ds = (if r \<noteq> [] \<and> (hd r = CHR ''-'' \<or> hd r = CHR ''+'') then tl r else r)
           in if ds \<noteq> [] \<and> all_digits ds
              then Some (if neg then - int (digits_val ds) else int (digits_val ds))
              else None))"

definition parse_decimal :: "string \<Rightarrow> rat option" where
  "parse_decimal u =
     (let mant = takeWhile (\<lambda>c. \<not> is_exp_mark c) u;
          ex = dropWhile (\<lambda>c. \<not> is_exp_mark c) u;
          ip = takeWhile (\<lambda>c. c \<noteq> CHR ''.'') mant;
          fr = dropWhile (\<lambda>c. c \<noteq> CHR ''.'') mant;
          fp = (if fr = [] then [] else tl fr)
      in if all_digits ip \<and> all_digits fp \<and> \<not> (ip = [] \<and> fp = [])
         then (case parse_exponent ex of
                 None \<Rightarrow> None
               | Some e \<Rightarrow>
                   (let m = of_nat (digits_val ip) + of_nat (digits_val fp) / 10 ^ length fp
                    in Some (if 0 \<le> e then m * 10 ^ nat e else m / 10 ^ nat (- e))))
         else None)"

definition parse_unsigned :: "string \<Rightarrow> pyfloat option" where
  "parse_unsigned u =
     (if map lower u = ''inf'' \<or> map lower u = ''infinity'' then Some PInf
      else if map lower u = ''nan'' then Some NaN
      else map_option Fin (parse_decimal u))"

definition py_float :: "string \<Rightarrow> error + pyfloat" where
  "py_float s =
     (let t = strip s;
          u = filter (\<lambda>c. c \<noteq> CHR ''_'') t;
          r = (if \<not> underscores_ok (CHR '' '') t then None
               else if u \<noteq> [] \<and> hd u = CHR ''-'' then map_option fneg (parse_unsigned (tl u))
               else if u \<noteq> [] \<and> hd u = CHR ''+'' then parse_unsigned (tl u)
               else parse_unsigned u)
      in case r of None \<Rightarrow> Inl (FloatFormat s) | Some x \<Rightarrow> Inr x)"

subsection \<open>The time parser\<close>

definition endswith :: "string \<Rightarrow> string \<Rightarrow> bool" where
  "endswith s suf = (length suf \<le> length s \<and> drop (length s - length suf) s = suf)"

text \<open>\<^verbatim>\<open>s[:-n]\<close> for a positive \<open>n\<close>: all but the last \<open>n\<close> characters, empty when there are fewer.\<close>

definition drop_last :: "nat \<Rightarrow> string \<Rightarrow> string" where
  "drop_last n s = take (length s - n) s"

text \<open>Lines 49 to 60: the binding of \<^verbatim>\<open>val\<close>, the seconds before the sign check.\<close>

definition interval_value :: "string \<Rightarrow> error + pyfloat" where
  "interval_value interval =
     (if endswith interval ''s'' \<and> \<not> endswith interval ''ms''
        then py_float (drop_last 1 interval)
      else if endswith interval ''m''
        then map_sum id (\<lambda>x. fmul x (Fin 60)) (py_float (drop_last 1 interval))
      else if endswith interval ''h''
        then map_sum id (\<lambda>x. fmul x (Fin 3600)) (py_float (drop_last 1 interval))
      else if endswith interval ''d''
        then map_sum id (\<lambda>x. fmul x (Fin 86400)) (py_float (drop_last 1 interval))
      else if endswith interval ''ms''
        then map_sum id (\<lambda>x. fdiv_const x 1000) (py_float (drop_last 2 interval))
      else Inl InvalidIntervalFormat)"

definition parse_time :: "string \<Rightarrow> error + pyfloat" where
  "parse_time interval =
     (case interval_value interval of
        Inl e \<Rightarrow> Inl e
      | Inr val \<Rightarrow> if flt0 val then Inl NegativeInterval else Inr val)"

subsection \<open>The scheduler\<close>

type_synonym props = "string \<rightharpoonup> val"

record scheduler =
  tasks :: "(string \<times> props) list"
  groups :: "(string \<times> string list) list"

text \<open>\<^verbatim>\<open>TaskForge.__init__\<close> (the lock has no content).\<close>

definition init :: scheduler where
  "init = \<lparr>tasks = [], groups = []\<rparr>"

text \<open>\<^verbatim>\<open>self._parse_time(x) if x else 0\<close>: absent and empty are the integer 0.\<close>

definition parse_optional :: "string option \<Rightarrow> error + val" where
  "parse_optional x =
     (case x of
        None \<Rightarrow> Inr (VInt 0)
      | Some tok \<Rightarrow> if tok = [] then Inr (VInt 0) else map_sum id VFloat (parse_time tok))"

definition opt_val :: "('a \<Rightarrow> val) \<Rightarrow> 'a option \<Rightarrow> val" where
  "opt_val f x = (case x of None \<Rightarrow> VNone | Some a \<Rightarrow> f a)"

subsubsection \<open>\<^verbatim>\<open>every\<close>\<close>

text \<open>
  \<^verbatim>\<open>every(...)\<close> parses the three durations (interval, then jitter, then delay) and returns
  the decorator, a closure over the parsed values; \<open>every_args\<close> is that closure's
  environment. \<open>decorator_every\<close> is the decorator applied to a function of the given name.
\<close>

record every_args =
  e_interval :: pyfloat
  e_delay :: val
  e_jitter :: val
  e_limit :: "int option"
  e_log :: bool
  e_group :: "string option"

definition every ::
  "string \<Rightarrow> string option \<Rightarrow> string option \<Rightarrow> int option \<Rightarrow> bool \<Rightarrow> string option
     \<Rightarrow> error + every_args" where
  "every interval delay jitter limit log_flag grp =
     (case parse_time interval of
        Inl e \<Rightarrow> Inl e
      | Inr i \<Rightarrow>
          (case parse_optional jitter of
             Inl e \<Rightarrow> Inl e
           | Inr j \<Rightarrow>
               (case parse_optional delay of
                  Inl e \<Rightarrow> Inl e
                | Inr d \<Rightarrow>
                    Inr \<lparr>e_interval = i, e_delay = d, e_jitter = j, e_limit = limit,
                         e_log = log_flag, e_group = grp\<rparr>)))"

definition periodic_record :: "every_args \<Rightarrow> string \<Rightarrow> props" where
  "periodic_record a task_name =
     [''function'' \<mapsto> VFunc (Periodic task_name),
      ''state'' \<mapsto> VStr ''active'',
      ''interval'' \<mapsto> VFloat (e_interval a),
      ''delay'' \<mapsto> e_delay a,
      ''jitter'' \<mapsto> e_jitter a,
      ''limit'' \<mapsto> opt_val VInt (e_limit a),
      ''log'' \<mapsto> VBool (e_log a),
      ''group'' \<mapsto> opt_val VStr (e_group a)]"

text \<open>\<^verbatim>\<open>groups[g].append(name)\<close>, after \<^verbatim>\<open>groups[g] = []\<close> when the group is new.\<close>

definition add_member :: "string \<Rightarrow> string \<Rightarrow> (string \<times> string list) list
    \<Rightarrow> (string \<times> string list) list" where
  "add_member g task_name gs =
     (case map_of gs g of
        Some ms \<Rightarrow> AList.update g (ms @ [task_name]) gs
      | None \<Rightarrow> AList.update g [task_name] gs)"

definition decorator_every ::
  "every_args \<Rightarrow> string \<Rightarrow> scheduler \<Rightarrow> (error + func) \<times> scheduler" where
  "decorator_every a task_name s =
     (if map_of (tasks s) task_name \<noteq> None then (Inl (TaskExists task_name), s)
      else
        (let s1 = s\<lparr>tasks := AList.update task_name (periodic_record a task_name) (tasks s)\<rparr>;
             s2 = (case e_group a of
                     None \<Rightarrow> s1
                   | Some g \<Rightarrow>
                       if g = [] then s1 else s1\<lparr>groups := add_member g task_name (groups s1)\<rparr>)
         in (Inr (Periodic task_name), s2)))"

text \<open>The whole registration \<^verbatim>\<open>@scheduler.every(...)\<close> above \<^verbatim>\<open>def task_name\<close>.\<close>

definition register_every ::
  "string \<Rightarrow> string option \<Rightarrow> string option \<Rightarrow> int option \<Rightarrow> bool \<Rightarrow> string option
     \<Rightarrow> string \<Rightarrow> scheduler \<Rightarrow> (error + func) \<times> scheduler" where
  "register_every interval delay jitter limit log_flag grp task_name s =
     (case every interval delay jitter limit log_flag grp of
        Inl e \<Rightarrow> (Inl e, s)
      | Inr a \<Rightarrow> decorator_every a task_name s)"

subsubsection \<open>\<^verbatim>\<open>after\<close>\<close>

record after_args =
  a_delay :: val
  a_jitter :: val
  a_log :: bool

definition after :: "string option \<Rightarrow> string option \<Rightarrow> bool \<Rightarrow> error + after_args" where
  "after delay jitter log_flag =
     (case parse_optional jitter of
        Inl e \<Rightarrow> Inl e
      | Inr j \<Rightarrow>
          (case parse_optional delay of
             Inl e \<Rightarrow> Inl e
           | Inr d \<Rightarrow> Inr \<lparr>a_delay = d, a_jitter = j, a_log = log_flag\<rparr>))"

definition oneshot_record :: "after_args \<Rightarrow> string \<Rightarrow> props" where
  "oneshot_record a task_name =
     [''function'' \<mapsto> VFunc (OneShot task_name),
      ''state'' \<mapsto> VStr ''active'',
      ''delay'' \<mapsto> a_delay a,
      ''jitter'' \<mapsto> a_jitter a,
      ''log'' \<mapsto> VBool (a_log a)]"

definition decorator_after ::
  "after_args \<Rightarrow> string \<Rightarrow> scheduler \<Rightarrow> (error + func) \<times> scheduler" where
  "decorator_after a task_name s =
     (Inr (OneShot task_name),
      s\<lparr>tasks := AList.update task_name (oneshot_record a task_name) (tasks s)\<rparr>)"

definition register_after ::
  "string option \<Rightarrow> string option \<Rightarrow> bool \<Rightarrow> string \<Rightarrow> scheduler
     \<Rightarrow> (error + func) \<times> scheduler" where
  "register_after delay jitter log_flag task_name s =
     (case after delay jitter log_flag of
        Inl e \<Rightarrow> (Inl e, s)
      | Inr a \<Rightarrow> decorator_after a task_name s)"

subsubsection \<open>\<^verbatim>\<open>pause\<close>, \<^verbatim>\<open>resume\<close>, \<^verbatim>\<open>stop\<close>\<close>

definition set_state :: "string \<Rightarrow> string \<Rightarrow> scheduler \<Rightarrow> (error + unit) \<times> scheduler" where
  "set_state task_name st s =
     (case map_of (tasks s) task_name of
        Some p \<Rightarrow>
          (Inr (), s\<lparr>tasks := AList.update task_name (p(''state'' \<mapsto> VStr st)) (tasks s)\<rparr>)
      | None \<Rightarrow> (Inl (TaskNotFound task_name), s))"

definition pause :: "string \<Rightarrow> scheduler \<Rightarrow> (error + unit) \<times> scheduler" where
  "pause task_name s = set_state task_name ''paused'' s"

definition resume :: "string \<Rightarrow> scheduler \<Rightarrow> (error + unit) \<times> scheduler" where
  "resume task_name s = set_state task_name ''active'' s"

definition stop :: "string \<Rightarrow> scheduler \<Rightarrow> (error + unit) \<times> scheduler" where
  "stop task_name s = set_state task_name ''stopped'' s"

subsubsection \<open>\<^verbatim>\<open>edit\<close>\<close>

text \<open>
  \<^verbatim>\<open>updates\<close> is the list of the dictionary's items in order. A group name is a string
  (\<^verbatim>\<open>group: str = None\<close>): a group value that is true and not a string is outside the
  embedding, whose group index has string keys, and \<open>edit_group\<close> then stops with
  \<open>OutOfModel\<close> before it changes anything.
\<close>

fun group_typed :: "val \<Rightarrow> bool" where
  "group_typed (VStr g) = True"
| "group_typed v = (\<not> truthy v)"

fun str_of :: "val \<Rightarrow> string" where
  "str_of (VStr g) = g"
| "str_of v = []"

text \<open>\<^verbatim>\<open>groups[g].remove(name)\<close>, then \<^verbatim>\<open>del groups[g]\<close> if the list is empty.\<close>

definition remove_member :: "string \<Rightarrow> string \<Rightarrow> (string \<times> string list) list
    \<Rightarrow> error + (string \<times> string list) list" where
  "remove_member g task_name gs =
     (case map_of gs g of
        None \<Rightarrow> Inl (KeyError g)
      | Some ms \<Rightarrow>
          if task_name \<in> set ms
          then (let ms' = remove1 task_name ms
                in Inr (if ms' = [] then AList.delete g gs else AList.update g ms' gs))
          else Inl (NotInList task_name))"

definition edit_group :: "string \<Rightarrow> props \<Rightarrow> val \<Rightarrow> scheduler \<Rightarrow> (error + unit) \<times> scheduler" where
  "edit_group task_name p value s =
     (let old_group = (case p ''group'' of None \<Rightarrow> VNone | Some v \<Rightarrow> v)
      in if \<not> (group_typed old_group \<and> group_typed value) then (Inl OutOfModel, s)
         else
           (case (if truthy old_group
                  then remove_member (str_of old_group) task_name (groups s)
                  else Inr (groups s)) of
              Inl e \<Rightarrow> (Inl e, s)
            | Inr gs \<Rightarrow>
                (Inr (),
                 s\<lparr>groups := (if truthy value then add_member (str_of value) task_name gs
                              else gs)\<rparr>)))"

text \<open>\<^verbatim>\<open>self._parse_time(value)\<close> on a value of any type.\<close>

fun parse_time_val :: "val \<Rightarrow> error + pyfloat" where
  "parse_time_val (VStr tok) = parse_time tok"
| "parse_time_val v = Inl AttributeError"

fun edit_loop :: "string \<Rightarrow> (string \<times> val) list \<Rightarrow> scheduler \<Rightarrow> (error + unit) \<times> scheduler" where
  "edit_loop task_name [] s = (Inr (), s)"
| "edit_loop task_name ((prop, value) # updates) s =
     (case map_of (tasks s) task_name of
        None \<Rightarrow> (Inl (KeyError task_name), s)
      | Some p \<Rightarrow>
          if p prop = None then (Inl (PropertyNotFound prop task_name), s)
          else
            (case (if prop = ''group'' then edit_group task_name p value s else (Inr (), s)) of
               (Inl e, s1) \<Rightarrow> (Inl e, s1)
             | (Inr u, s1) \<Rightarrow>
                 if prop \<in> set [''delay'', ''interval'', ''jitter'']
                 then (case parse_time_val value of
                         Inl e \<Rightarrow> (Inl e, s1)
                       | Inr parsed_val \<Rightarrow>
                           edit_loop task_name updates
                             (s1\<lparr>tasks := AList.update task_name (p(prop \<mapsto> VFloat parsed_val))
                                            (tasks s1)\<rparr>))
                 else edit_loop task_name updates
                        (s1\<lparr>tasks := AList.update task_name (p(prop \<mapsto> value)) (tasks s1)\<rparr>)))"

definition edit :: "string \<Rightarrow> (string \<times> val) list \<Rightarrow> scheduler \<Rightarrow> (error + unit) \<times> scheduler" where
  "edit task_name updates s =
     (if map_of (tasks s) task_name \<noteq> None then edit_loop task_name updates s
      else (Inl (TaskNotFound task_name), s))"

subsubsection \<open>\<^verbatim>\<open>_expand_targets\<close> and \<^verbatim>\<open>run\<close>\<close>







subsection \<open>The task executors\<close>























subsection \<open>The group index against the registry\<close>

text \<open>
  Membership of a task in a group of the index, and the group a task's record names
  (\<^verbatim>\<open>tasks[t]["group"] == g\<close>). \<open>group_agreement\<close> is the agreement of the two for every
  group name; \<open>group_invariant\<close> is the agreement for every non-empty group name, together
  with what the index keeps besides: no group with the empty name, and every member list
  non-empty and free of repetitions.
\<close>

definition in_group :: "(string \<times> string list) list \<Rightarrow> string \<Rightarrow> string \<Rightarrow> bool" where
  "in_group gs g t = (case map_of gs g of None \<Rightarrow> False | Some ms \<Rightarrow> t \<in> set ms)"

definition has_group :: "(string \<times> props) list \<Rightarrow> string \<Rightarrow> string \<Rightarrow> bool" where
  "has_group ts t g = (case map_of ts t of None \<Rightarrow> False | Some p \<Rightarrow> p ''group'' = Some (VStr g))"

definition group_agreement :: "scheduler \<Rightarrow> bool" where
  "group_agreement s = (\<forall>g t. in_group (groups s) g t = has_group (tasks s) t g)"

definition group_invariant :: "scheduler \<Rightarrow> bool" where
  "group_invariant s =
     ((\<forall>g t. g \<noteq> [] \<longrightarrow> in_group (groups s) g t = has_group (tasks s) t g)
      \<and> map_of (groups s) [] = None
      \<and> (\<forall>g ms. map_of (groups s) g = Some ms \<longrightarrow> distinct ms \<and> ms \<noteq> []))"


subsection \<open>Example schedulers\<close>

text \<open>
  \<^verbatim>\<open>@scheduler.every("1s", limit=3, group="g")\<close> above \<^verbatim>\<open>def job\<close> on a new scheduler,
  and the same followed by \<^verbatim>\<open>@scheduler.every("2m", group="g")\<close> above \<^verbatim>\<open>def sync\<close>.
\<close>

definition job_args :: every_args where
  "job_args = \<lparr>e_interval = Fin 1, e_delay = VInt 0, e_jitter = VInt 0, e_limit = Some 3,
               e_log = False, e_group = Some ''g''\<rparr>"

definition sync_args :: every_args where
  "sync_args = \<lparr>e_interval = Fin 120, e_delay = VInt 0, e_jitter = VInt 0, e_limit = None,
                e_log = False, e_group = Some ''g''\<rparr>"

definition demo1 :: scheduler where
  "demo1 = snd (register_every ''1s'' None None (Some 3) False (Some ''g'') ''job'' init)"

definition demo2 :: scheduler where
  "demo2 = snd (register_every ''2m'' None None None False (Some ''g'') ''sync'' demo1)"











section \<open>Properties\<close>

subsection \<open>Auxiliary facts about the parser\<close>
























lemmas parser_eval =
  parse_time_def interval_value_def endswith_def drop_last_def py_float_def strip_def
  is_space_def parse_unsigned_def lower_def parse_decimal_def is_exp_mark_def all_digits_def
  is_digit_def parse_exponent_def digits_val_def digit_val_def

subsection \<open>The time parser\<close>





subsection \<open>The registry: state changes, duplicate names, one-shot records\<close>

lemma map_of_update_other: "m \<noteq> n \<Longrightarrow> map_of (AList.update n v al) m = map_of al m"
  by (simp add: update_conv')

lemma map_of_update_same: "map_of (AList.update n v al) n = Some v"
  by (simp add: update_conv')

lemma keys_update_present:
  "map_of al n = Some p \<Longrightarrow> map fst (AList.update n v al) = map fst al"
  by (simp add: update_keys map_of_eq_None_iff[symmetric] del: map_of_eq_None_iff)

lemma set_state_found:
  "map_of (tasks s) n = Some p \<Longrightarrow>
   set_state n st s
     = (Inr (), s\<lparr>tasks := AList.update n (p(''state'' \<mapsto> VStr st)) (tasks s)\<rparr>)"
  by (simp add: set_state_def)

lemma set_state_missing:
  "map_of (tasks s) n = None \<Longrightarrow> set_state n st s = (Inl (TaskNotFound n), s)"
  by (simp add: set_state_def)

lemma set_state_idem:
  assumes "map_of (tasks s) n = Some p" "p ''state'' = Some (VStr st)"
  shows "snd (set_state n st s) = s"
proof -
  from assms(2) have "p(''state'' \<mapsto> VStr st) = p" by (rule map_upd_triv)
  with assms(1) show ?thesis by (simp add: set_state_found update_triv)
qed

lemma set_state_frame:
  assumes "map_of (tasks s) n = Some p"
  shows "set_state n st s
           = (Inr (), s\<lparr>tasks := AList.update n (p(''state'' \<mapsto> VStr st)) (tasks s)\<rparr>)
    \<and> groups (snd (set_state n st s)) = groups s
    \<and> map fst (tasks (snd (set_state n st s))) = map fst (tasks s)
    \<and> (\<forall>m. m \<noteq> n \<longrightarrow> map_of (tasks (snd (set_state n st s))) m = map_of (tasks s) m)
    \<and> map_of (tasks (snd (set_state n st s))) n = Some (p(''state'' \<mapsto> VStr st))
    \<and> (\<forall>k. k \<noteq> ''state'' \<longrightarrow> (p(''state'' \<mapsto> VStr st)) k = p k)
    \<and> (p ''state'' = Some (VStr st) \<longrightarrow> snd (set_state n st s) = s)"
  using assms set_state_idem[OF assms]
  by (simp add: set_state_found keys_update_present map_of_update_other map_of_update_same)

lemma set_state_case:
  "(case map_of (tasks s) n of
      Some p \<Rightarrow>
        set_state n st s
          = (Inr (), s\<lparr>tasks := AList.update n (p(''state'' \<mapsto> VStr st)) (tasks s)\<rparr>)
        \<and> groups (snd (set_state n st s)) = groups s
        \<and> map fst (tasks (snd (set_state n st s))) = map fst (tasks s)
        \<and> (\<forall>m. m \<noteq> n \<longrightarrow> map_of (tasks (snd (set_state n st s))) m = map_of (tasks s) m)
        \<and> map_of (tasks (snd (set_state n st s))) n = Some (p(''state'' \<mapsto> VStr st))
        \<and> (\<forall>k. k \<noteq> ''state'' \<longrightarrow> (p(''state'' \<mapsto> VStr st)) k = p k)
        \<and> (p ''state'' = Some (VStr st) \<longrightarrow> snd (set_state n st s) = s)
    | None \<Rightarrow> set_state n st s = (Inl (TaskNotFound n), s))"
proof (cases "map_of (tasks s) n")
  case None
  then show ?thesis by (simp add: set_state_missing)
next
  case (Some p)
  show ?thesis
    by (simp only: Some option.case) (rule set_state_frame[OF Some])
qed

text \<open>
  Claim C9. For a task in the registry, \<^verbatim>\<open>pause\<close>, \<^verbatim>\<open>resume\<close> and \<^verbatim>\<open>stop\<close> succeed and set the
  \<^verbatim>\<open>state\<close> field of its record to \<^verbatim>\<open>paused\<close>, \<^verbatim>\<open>active\<close> and \<^verbatim>\<open>stopped\<close>; every other field
  of the record, the record of every other task, the order of the registry and the group
  index stay as they were. For a name that is not in the registry each of them fails with
  the not-found error and returns the scheduler unchanged. When the record already has the
  state being set (pausing a paused task), the scheduler after the call equals the one
  before.
\<close>

theorem state_change_frame:
  "\<forall>(f, st) \<in> set [(pause, ''paused''), (resume, ''active''), (stop, ''stopped'')].
     (case map_of (tasks s) n of
        Some p \<Rightarrow>
          f n s = (Inr (), s\<lparr>tasks := AList.update n (p(''state'' \<mapsto> VStr st)) (tasks s)\<rparr>)
          \<and> groups (snd (f n s)) = groups s
          \<and> map fst (tasks (snd (f n s))) = map fst (tasks s)
          \<and> (\<forall>m. m \<noteq> n \<longrightarrow> map_of (tasks (snd (f n s))) m = map_of (tasks s) m)
          \<and> map_of (tasks (snd (f n s))) n = Some (p(''state'' \<mapsto> VStr st))
          \<and> (\<forall>k. k \<noteq> ''state'' \<longrightarrow> (p(''state'' \<mapsto> VStr st)) k = p k)
          \<and> (p ''state'' = Some (VStr st) \<longrightarrow> snd (f n s) = s)
      | None \<Rightarrow> f n s = (Inl (TaskNotFound n), s))"
proof (intro ballI, clarify)
  fix f :: "string \<Rightarrow> scheduler \<Rightarrow> (error + unit) \<times> scheduler" and st
  assume "(f, st) \<in> set [(pause, ''paused''), (resume, ''active''), (stop, ''stopped'')]"
  then have f: "f n s = set_state n st s"
    by (auto simp add: pause_def resume_def stop_def)
  show "case map_of (tasks s) n of
        Some p \<Rightarrow>
          f n s = (Inr (), s\<lparr>tasks := AList.update n (p(''state'' \<mapsto> VStr st)) (tasks s)\<rparr>)
          \<and> groups (snd (f n s)) = groups s
          \<and> map fst (tasks (snd (f n s))) = map fst (tasks s)
          \<and> (\<forall>m. m \<noteq> n \<longrightarrow> map_of (tasks (snd (f n s))) m = map_of (tasks s) m)
          \<and> map_of (tasks (snd (f n s))) n = Some (p(''state'' \<mapsto> VStr st))
          \<and> (\<forall>k. k \<noteq> ''state'' \<longrightarrow> (p(''state'' \<mapsto> VStr st)) k = p k)
          \<and> (p ''state'' = Some (VStr st) \<longrightarrow> snd (f n s) = s)
      | None \<Rightarrow> f n s = (Inl (TaskNotFound n), s)"
    unfolding f by (rule set_state_case)
qed

lemma decorator_every_dup:
  "map_of (tasks s) n \<noteq> None \<Longrightarrow> decorator_every a n s = (Inl (TaskExists n), s)"
  by (simp add: decorator_every_def)

text \<open>
  Claim C7. When the function's name is already in the registry, whatever the registry and
  the group index are otherwise, the decorator of \<^verbatim>\<open>every\<close> fails with the duplicate-name
  error (\<^verbatim>\<open>NameError\<close>) and leaves the registry and the group index unchanged. The whole
  registration fails and changes nothing in every case; its error is the duplicate-name
  error whenever the durations given to \<^verbatim>\<open>every\<close> parse, since only then is there a
  decorator to apply.
\<close>

theorem duplicate_name_rejected:
  "map_of (tasks s) n \<noteq> None \<longrightarrow>
     decorator_every a n s = (Inl (TaskExists n), s)
     \<and> snd (register_every i d j l lg g n s) = s
     \<and> (\<exists>e. fst (register_every i d j l lg g n s) = Inl e)
     \<and> (every i d j l lg g = Inr a \<longrightarrow>
          register_every i d j l lg g n s = (Inl (TaskExists n), s))"
  by (cases "every i d j l lg g") (auto simp add: register_every_def decorator_every_dup)

lemma decorator_after_eq:
  "decorator_after a n s
     = (Inr (OneShot n), s\<lparr>tasks := AList.update n (oneshot_record a n) (tasks s)\<rparr>)"
  by (simp add: decorator_after_def)

text \<open>
  Claim C10. The decorator of \<^verbatim>\<open>after\<close> never fails: it stores the new one-shot record
  under the function's name, replacing any record, periodic or one-shot, that was there
  (at its place in the registry), and touches neither another task nor the group index.
  The decorator of \<^verbatim>\<open>every\<close> on the same scheduler rejects the name.
\<close>

theorem oneshot_overwrites:
  "decorator_after a n s
     = (Inr (OneShot n), s\<lparr>tasks := AList.update n (oneshot_record a n) (tasks s)\<rparr>)
   \<and> map_of (tasks (snd (decorator_after a n s))) n = Some (oneshot_record a n)
   \<and> (\<forall>m. m \<noteq> n \<longrightarrow> map_of (tasks (snd (decorator_after a n s))) m = map_of (tasks s) m)
   \<and> groups (snd (decorator_after a n s)) = groups s
   \<and> (map_of (tasks s) n = Some p \<longrightarrow>
        map fst (tasks (snd (decorator_after a n s))) = map fst (tasks s)
        \<and> decorator_every b n s = (Inl (TaskExists n), s))
   \<and> (after d j lg = Inr a \<longrightarrow> register_after d j lg n s = decorator_after a n s)"
  by (simp add: decorator_after_eq map_of_update_same map_of_update_other keys_update_present
      decorator_every_dup register_after_def)

lemma oneshot_record_dom:
  "dom (oneshot_record a n) = {''function'', ''state'', ''delay'', ''jitter'', ''log''}"
  by (auto simp add: oneshot_record_def split: if_splits)

text \<open>
  Claim C8 as stated fails: the record that \<^verbatim>\<open>after\<close> inserts has a \<^verbatim>\<open>state\<close> field, with the
  value \<^verbatim>\<open>active\<close> (line 210 of the source).
\<close>

theorem oneshot_record_has_state:
  "register_after (Some ''5s'') None False ''once'' init
     = (Inr (OneShot ''once''),
        \<lparr>tasks = [(''once'', oneshot_record
                     \<lparr>a_delay = VFloat (Fin 5), a_jitter = VInt 0, a_log = False\<rparr> ''once'')],
         groups = []\<rparr>)
   \<and> oneshot_record \<lparr>a_delay = VFloat (Fin 5), a_jitter = VInt 0, a_log = False\<rparr> ''once''
       ''state'' = Some (VStr ''active'')"
  by (simp add: register_after_def after_def parse_optional_def parser_eval decorator_after_def
      init_def oneshot_record_def)

text \<open>
  Claim C8, amended. The record that the decorator of \<^verbatim>\<open>after\<close> inserts has exactly the
  fields \<^verbatim>\<open>function\<close>, \<^verbatim>\<open>state\<close>, \<^verbatim>\<open>delay\<close>, \<^verbatim>\<open>jitter\<close> and \<^verbatim>\<open>log\<close>, with \<^verbatim>\<open>state\<close> set to
  \<^verbatim>\<open>active\<close>; it has no \<^verbatim>\<open>interval\<close>, \<^verbatim>\<open>limit\<close> or \<^verbatim>\<open>group\<close> field.
\<close>

theorem oneshot_record_fields:
  "map_of (tasks (snd (decorator_after a n s))) n = Some (oneshot_record a n)
   \<and> dom (oneshot_record a n) = {''function'', ''state'', ''delay'', ''jitter'', ''log''}
   \<and> oneshot_record a n ''function'' = Some (VFunc (OneShot n))
   \<and> oneshot_record a n ''state'' = Some (VStr ''active'')
   \<and> oneshot_record a n ''delay'' = Some (a_delay a)
   \<and> oneshot_record a n ''jitter'' = Some (a_jitter a)
   \<and> oneshot_record a n ''log'' = Some (VBool (a_log a))
   \<and> oneshot_record a n ''interval'' = None
   \<and> oneshot_record a n ''limit'' = None
   \<and> oneshot_record a n ''group'' = None"
  by (simp add: oneshot_record_dom decorator_after_eq map_of_update_same)
    (simp add: oneshot_record_def)

lemma every_job: "every ''1s'' None None (Some 3) False (Some ''g'') = Inr job_args"
  by (simp add: every_def parse_optional_def job_args_def parser_eval)

lemma every_sync: "every ''2m'' None None None False (Some ''g'') = Inr sync_args"
  by (simp add: every_def parse_optional_def sync_args_def parser_eval)

lemma demo1_eq:
  "demo1 = \<lparr>tasks = [(''job'', periodic_record job_args ''job'')], groups = [(''g'', [''job''])]\<rparr>"
  by (simp add: demo1_def register_every_def every_job decorator_every_def init_def
      add_member_def job_args_def)

lemma demo2_eq:
  "demo2 = \<lparr>tasks = [(''job'', periodic_record job_args ''job''),
                      (''sync'', periodic_record sync_args ''sync'')],
            groups = [(''g'', [''job'', ''sync''])]\<rparr>"
  by (simp add: demo2_def register_every_def every_sync decorator_every_def demo1_eq
      add_member_def sync_args_def)

theorem state_change_frame_witness:
  "map_of (tasks demo1) ''job'' = Some (periodic_record job_args ''job'')
   \<and> pause ''job'' demo1
       = (Inr (), demo1\<lparr>tasks := [(''job'', (periodic_record job_args ''job'')
                                              (''state'' \<mapsto> VStr ''paused''))]\<rparr>)
   \<and> groups (snd (stop ''job'' demo1)) = [(''g'', [''job''])]
   \<and> periodic_record job_args ''job'' ''state'' = Some (VStr ''active'')
   \<and> snd (resume ''job'' demo1) = demo1
   \<and> map_of (tasks demo1) ''ghost'' = None
   \<and> pause ''ghost'' demo1 = (Inl (TaskNotFound ''ghost''), demo1)"
  using state_change_frame[where s = demo1 and n = "''job''"]
    state_change_frame[where s = demo1 and n = "''ghost''"]
  by (simp add: demo1_eq periodic_record_def pause_def resume_def stop_def set_state_def)

theorem duplicate_name_rejected_witness:
  "map_of (tasks demo1) ''job'' \<noteq> None
   \<and> every ''2m'' None None None False (Some ''g'') = Inr sync_args
   \<and> decorator_every sync_args ''job'' demo1 = (Inl (TaskExists ''job''), demo1)
   \<and> register_every ''2m'' None None None False (Some ''g'') ''job'' demo1
       = (Inl (TaskExists ''job''), demo1)"
proof -
  have a: "map_of (tasks demo1) ''job'' \<noteq> None" by (simp add: demo1_eq)
  show ?thesis
    using a every_sync
      duplicate_name_rejected[where s = demo1 and n = "''job''" and a = sync_args
        and i = "''2m''" and d = None and j = None and l = None and lg = False
        and g = "Some ''g''"]
    by simp
qed

theorem oneshot_overwrites_witness:
  "map_of (tasks demo1) ''job'' = Some (periodic_record job_args ''job'')
   \<and> after (Some ''5s'') None True
       = Inr \<lparr>a_delay = VFloat (Fin 5), a_jitter = VInt 0, a_log = True\<rparr>
   \<and> register_after (Some ''5s'') None True ''job'' demo1
       = (Inr (OneShot ''job''),
          \<lparr>tasks = [(''job'', oneshot_record
                       \<lparr>a_delay = VFloat (Fin 5), a_jitter = VInt 0, a_log = True\<rparr> ''job'')],
           groups = [(''g'', [''job''])]\<rparr>)
   \<and> decorator_every sync_args ''job'' demo1 = (Inl (TaskExists ''job''), demo1)"
proof -
  have a: "map_of (tasks demo1) ''job'' = Some (periodic_record job_args ''job'')"
    by (simp add: demo1_eq)
  have b: "after (Some ''5s'') None True
       = Inr \<lparr>a_delay = VFloat (Fin 5), a_jitter = VInt 0, a_log = True\<rparr>"
    by (simp add: after_def parse_optional_def parser_eval)
  show ?thesis
    using a b
      oneshot_overwrites[where a = "\<lparr>a_delay = VFloat (Fin 5), a_jitter = VInt 0, a_log = True\<rparr>"
        and n = "''job''" and s = demo1 and p = "periodic_record job_args ''job''"
        and b = sync_args and d = "Some ''5s''" and j = None and lg = True]
    by (simp add: demo1_eq)
qed

theorem oneshot_record_fields_witness:
  "map_of (tasks (snd (decorator_after
       \<lparr>a_delay = VFloat (Fin 5), a_jitter = VInt 0, a_log = False\<rparr> ''once'' init))) ''once''
     = Some (oneshot_record \<lparr>a_delay = VFloat (Fin 5), a_jitter = VInt 0, a_log = False\<rparr>
         ''once'')
   \<and> dom (oneshot_record \<lparr>a_delay = VFloat (Fin 5), a_jitter = VInt 0, a_log = False\<rparr>
         ''once'')
     = {''function'', ''state'', ''delay'', ''jitter'', ''log''}"
  using oneshot_record_fields[where
      a = "\<lparr>a_delay = VFloat (Fin 5), a_jitter = VInt 0, a_log = False\<rparr>"
      and n = "''once''" and s = init]
  by simp

subsection \<open>The group index\<close>

lemma map_of_add_member:
  "map_of (add_member g n gs) g'
     = (if g' = g then Some ((case map_of gs g of None \<Rightarrow> [] | Some ms \<Rightarrow> ms) @ [n])
        else map_of gs g')"
  by (simp add: add_member_def update_conv' split: option.splits)

lemma in_group_add_member:
  "in_group (add_member g n gs) g' t = (in_group gs g' t \<or> (g' = g \<and> t = n))"
  by (auto simp add: in_group_def map_of_add_member split: option.splits)

lemma remove_member_ok:
  assumes "map_of gs g = Some ms" "n \<in> set ms"
  shows "remove_member g n gs
           = Inr (if remove1 n ms = [] then AList.delete g gs
                  else AList.update g (remove1 n ms) gs)"
  using assms by (simp add: remove_member_def Let_def)

lemma has_group_update_other:
  "map_of ts n = Some p \<Longrightarrow> prop \<noteq> ''group'' \<Longrightarrow>
   has_group (AList.update n (p(prop \<mapsto> v)) ts) t g = has_group ts t g"
  by (auto simp add: has_group_def update_conv')

lemma has_group_insert:
  "has_group (AList.update n p ts) t g
     = (if t = n then p ''group'' = Some (VStr g) else has_group ts t g)"
  by (auto simp add: has_group_def update_conv')

lemma invD1:
  "group_invariant s \<Longrightarrow> g \<noteq> [] \<Longrightarrow> in_group (groups s) g t = has_group (tasks s) t g"
  unfolding group_invariant_def by blast

lemma invD2: "group_invariant s \<Longrightarrow> map_of (groups s) [] = None"
  unfolding group_invariant_def by blast

lemma invD3:
  "group_invariant s \<Longrightarrow> map_of (groups s) g = Some ms \<Longrightarrow> distinct ms \<and> ms \<noteq> []"
  unfolding group_invariant_def by blast

lemma invI:
  assumes "\<And>g t. g \<noteq> [] \<Longrightarrow> in_group (groups s) g t = has_group (tasks s) t g"
    and "map_of (groups s) [] = None"
    and "\<And>g ms. map_of (groups s) g = Some ms \<Longrightarrow> distinct ms \<and> ms \<noteq> []"
  shows "group_invariant s"
  unfolding group_invariant_def using assms by blast

lemma invariant_other_prop:
  assumes inv: "group_invariant s" and p: "map_of (tasks s) n = Some p"
    and np: "prop \<noteq> ''group''"
  shows "group_invariant (s\<lparr>tasks := AList.update n (p(prop \<mapsto> v)) (tasks s)\<rparr>)"
proof (rule invI)
  fix g t assume g: "g \<noteq> ([]::string)"
  show "in_group (groups (s\<lparr>tasks := AList.update n (p(prop \<mapsto> v)) (tasks s)\<rparr>)) g t
      = has_group (tasks (s\<lparr>tasks := AList.update n (p(prop \<mapsto> v)) (tasks s)\<rparr>)) t g"
    using invD1[OF inv g, of t] by (simp add: has_group_update_other[OF p np])
next
  show "map_of (groups (s\<lparr>tasks := AList.update n (p(prop \<mapsto> v)) (tasks s)\<rparr>)) [] = None"
    using invD2[OF inv] by simp
next
  fix g ms
  assume "map_of (groups (s\<lparr>tasks := AList.update n (p(prop \<mapsto> v)) (tasks s)\<rparr>)) g = Some ms"
  then have "map_of (groups s) g = Some ms" by simp
  then show "distinct ms \<and> ms \<noteq> []" by (rule invD3[OF inv])
qed

lemma invariant_init: "group_invariant init"
  by (rule invI) (simp_all add: init_def in_group_def has_group_def)

lemma invariant_set_state:
  assumes "group_invariant s"
  shows "group_invariant (snd (set_state n st s))"
proof (cases "map_of (tasks s) n")
  case None
  with assms show ?thesis by (simp add: set_state_def)
next
  case (Some p)
  have "group_invariant (s\<lparr>tasks := AList.update n (p(''state'' \<mapsto> VStr st)) (tasks s)\<rparr>)"
    using assms Some by (rule invariant_other_prop) simp
  with Some show ?thesis by (simp add: set_state_def)
qed

lemma invariant_store_ungrouped:
  assumes others: "\<And>g t. g \<noteq> [] \<Longrightarrow> t \<noteq> n \<Longrightarrow> in_group gs g t = has_group ts t g"
    and out: "\<And>g. g \<noteq> [] \<Longrightarrow> \<not> in_group gs g n"
    and noempty: "map_of gs [] = None"
    and lists: "\<And>g ms. map_of gs g = Some ms \<Longrightarrow> distinct ms \<and> ms \<noteq> []"
    and pg: "\<And>g. g \<noteq> [] \<Longrightarrow> p ''group'' \<noteq> Some (VStr g)"
  shows "group_invariant (s\<lparr>tasks := AList.update n p ts, groups := gs\<rparr>)"
proof (rule invI)
  fix g t assume g: "g \<noteq> ([]::string)"
  show "in_group (groups (s\<lparr>tasks := AList.update n p ts, groups := gs\<rparr>)) g t
      = has_group (tasks (s\<lparr>tasks := AList.update n p ts, groups := gs\<rparr>)) t g"
  proof (cases "t = n")
    case True
    with out[OF g] pg[OF g] show ?thesis by (simp add: has_group_insert)
  next
    case False
    with others[OF g False] show ?thesis by (simp add: has_group_insert)
  qed
next
  show "map_of (groups (s\<lparr>tasks := AList.update n p ts, groups := gs\<rparr>)) [] = None"
    using noempty by simp
next
  fix g ms
  assume "map_of (groups (s\<lparr>tasks := AList.update n p ts, groups := gs\<rparr>)) g = Some ms"
  then have "map_of gs g = Some ms" by simp
  then show "distinct ms \<and> ms \<noteq> []" by (rule lists)
qed

lemma invariant_store_grouped:
  assumes others: "\<And>g' t. g' \<noteq> [] \<Longrightarrow> t \<noteq> n \<Longrightarrow> in_group gs g' t = has_group ts t g'"
    and out: "\<And>g'. g' \<noteq> [] \<Longrightarrow> \<not> in_group gs g' n"
    and noempty: "map_of gs [] = None"
    and lists: "\<And>g ms. map_of gs g = Some ms \<Longrightarrow> distinct ms \<and> ms \<noteq> []"
    and pg: "p ''group'' = Some (VStr g)" and g: "g \<noteq> []"
  shows "group_invariant (s\<lparr>tasks := AList.update n p ts, groups := add_member g n gs\<rparr>)"
proof (rule invI)
  fix g' t assume g': "g' \<noteq> ([]::string)"
  show "in_group (groups (s\<lparr>tasks := AList.update n p ts, groups := add_member g n gs\<rparr>)) g' t
      = has_group (tasks (s\<lparr>tasks := AList.update n p ts, groups := add_member g n gs\<rparr>)) t g'"
  proof (cases "t = n")
    case True
    have "in_group (add_member g n gs) g' n = (g' = g)"
      using out[OF g'] by (simp add: in_group_add_member)
    moreover have "has_group (AList.update n p ts) n g' = (g' = g)"
      using pg by (auto simp add: has_group_insert)
    ultimately show ?thesis using True by simp
  next
    case False
    with others[OF g' False] show ?thesis
      by (simp add: has_group_insert in_group_add_member)
  qed
next
  show "map_of (groups (s\<lparr>tasks := AList.update n p ts, groups := add_member g n gs\<rparr>)) []
      = None"
    using noempty g by (simp add: map_of_add_member)
next
  fix g' ms
  assume "map_of (groups (s\<lparr>tasks := AList.update n p ts, groups := add_member g n gs\<rparr>)) g'
      = Some ms"
  then have a: "map_of (add_member g n gs) g' = Some ms" by simp
  show "distinct ms \<and> ms \<noteq> []"
  proof (cases "g' = g")
    case False
    with a have "map_of gs g' = Some ms" by (simp add: map_of_add_member)
    then show ?thesis by (rule lists)
  next
    case True
    show ?thesis
    proof (cases "map_of gs g")
      case None
      with a True have "ms = [n]" by (auto simp add: map_of_add_member)
      then show ?thesis by simp
    next
      case (Some old)
      from out[OF g] Some have "n \<notin> set old" by (simp add: in_group_def)
      moreover from lists[OF Some] have "distinct old" by simp
      moreover from a True Some have "ms = old @ [n]" by (auto simp add: map_of_add_member)
      ultimately show ?thesis by simp
    qed
  qed
qed

lemma invariant_fresh:
  assumes inv: "group_invariant s" and none: "map_of (tasks s) n = None" and g: "g \<noteq> []"
  shows "\<not> in_group (groups s) g n"
  using invD1[OF inv g, of n] none by (simp add: has_group_def)

lemma invariant_decorator_every:
  assumes inv: "group_invariant s"
  shows "group_invariant (snd (decorator_every a n s))"
proof (cases "map_of (tasks s) n")
  case (Some p)
  with inv show ?thesis by (simp add: decorator_every_def)
next
  case None
  note fresh = invariant_fresh[OF inv None]
  note lists = invD3[OF inv]
  let ?p = "periodic_record a n"
  have pg: "?p ''group'' = Some (opt_val VStr (e_group a))"
    by (simp add: periodic_record_def)
  have plain: "group_invariant (s\<lparr>tasks := AList.update n ?p (tasks s), groups := groups s\<rparr>)"
    if "\<And>g. g \<noteq> [] \<Longrightarrow> ?p ''group'' \<noteq> Some (VStr g)"
    using invD1[OF inv] fresh invD2[OF inv] lists that
    by (rule invariant_store_ungrouped)
  show ?thesis
  proof (cases "e_group a")
    case gn: None
    have "group_invariant (s\<lparr>tasks := AList.update n ?p (tasks s), groups := groups s\<rparr>)"
      by (rule plain) (simp add: pg gn opt_val_def)
    with None gn show ?thesis by (simp add: decorator_every_def)
  next
    case gs: (Some g)
    show ?thesis
    proof (cases "g = []")
      case True
      have "group_invariant (s\<lparr>tasks := AList.update n ?p (tasks s), groups := groups s\<rparr>)"
        by (rule plain) (auto simp add: pg gs opt_val_def True)
      with None gs True show ?thesis by (simp add: decorator_every_def)
    next
      case False
      have pg': "?p ''group'' = Some (VStr g)" by (simp add: pg gs opt_val_def)
      have "group_invariant
              (s\<lparr>tasks := AList.update n ?p (tasks s), groups := add_member g n (groups s)\<rparr>)"
        using invD1[OF inv] fresh invD2[OF inv] lists pg' False
        by (rule invariant_store_grouped)
      with None gs False show ?thesis by (simp add: decorator_every_def)
    qed
  qed
qed

lemma in_group_removed:
  assumes ms: "map_of gs g = Some ms" and d: "distinct ms" and n: "n \<in> set ms"
    and gs': "gs' = (if remove1 n ms = [] then AList.delete g gs
                     else AList.update g (remove1 n ms) gs)"
  shows "in_group gs' g' t = (in_group gs g' t \<and> \<not> (g' = g \<and> t = n))"
proof (cases "g' = g")
  case False
  then show ?thesis by (simp add: gs' in_group_def update_conv' delete_conv')
next
  case True
  have mem: "t \<in> set (remove1 n ms) = (t \<in> set ms \<and> t \<noteq> n)"
    using d by (auto simp add: set_remove1_eq)
  show ?thesis
  proof (cases "remove1 n ms = []")
    case e: True
    with mem have "\<not> (t \<in> set ms \<and> t \<noteq> n)" by simp
    with True e ms show ?thesis by (auto simp add: gs' in_group_def delete_conv')
  next
    case e: False
    with True ms mem show ?thesis by (simp add: gs' in_group_def update_conv')
  qed
qed

lemma map_of_removed:
  assumes ms: "map_of gs g = Some ms"
    and gs': "gs' = (if remove1 n ms = [] then AList.delete g gs
                     else AList.update g (remove1 n ms) gs)"
  shows "map_of gs' g' = (if g' = g then (if remove1 n ms = [] then None
                                         else Some (remove1 n ms))
                          else map_of gs g')"
  by (simp add: gs' update_conv' delete_conv')

lemma truthy_group_typed:
  "group_typed v \<Longrightarrow> truthy v \<Longrightarrow> \<exists>g. v = VStr g \<and> g \<noteq> []"
  by (cases v) simp_all

lemma falsy_not_group: "\<not> truthy v \<Longrightarrow> g \<noteq> [] \<Longrightarrow> v \<noteq> VStr g"
  by (cases v) auto

lemma detach_from_old_group:
  assumes inv: "group_invariant s" and p: "map_of (tasks s) n = Some p"
    and old: "old = (case p ''group'' of None \<Rightarrow> VNone | Some v \<Rightarrow> v)"
    and typed: "group_typed old"
    and rm: "(if truthy old then remove_member (str_of old) n (groups s) else Inr (groups s))
               = Inr gs"
  shows "(\<forall>g t. g \<noteq> [] \<longrightarrow> t \<noteq> n \<longrightarrow> in_group gs g t = has_group (tasks s) t g)
       \<and> (\<forall>g. g \<noteq> [] \<longrightarrow> \<not> in_group gs g n)
       \<and> map_of gs [] = None
       \<and> (\<forall>g ms. map_of gs g = Some ms \<longrightarrow> distinct ms \<and> ms \<noteq> [])"
proof (cases "truthy old")
  case False
  with rm have gs: "gs = groups s" by simp
  have out: "\<not> in_group (groups s) g n" if g: "g \<noteq> []" for g
  proof -
    have "p ''group'' \<noteq> Some (VStr g)"
    proof (cases "p ''group''")
      case None
      then show ?thesis by simp
    next
      case (Some v)
      with old False have "\<not> truthy v" by simp
      from falsy_not_group[OF this g] Some show ?thesis by simp
    qed
    with invD1[OF inv g, of n] p show ?thesis by (simp add: has_group_def)
  qed
  show ?thesis
    unfolding gs using invD1[OF inv] out invD2[OF inv] invD3[OF inv] by blast
next
  case True
  from truthy_group_typed[OF typed True] obtain og where og: "old = VStr og" "og \<noteq> []"
    by blast
  from og(1) old have pg: "p ''group'' = Some (VStr og)"
    by (cases "p ''group''") simp_all
  with p have "has_group (tasks s) n og" by (simp add: has_group_def)
  with invD1[OF inv og(2), of n] have "in_group (groups s) og n" by simp
  then obtain ms where ms: "map_of (groups s) og = Some ms" "n \<in> set ms"
    by (auto simp add: in_group_def split: option.splits)
  from invD3[OF inv ms(1)] have d: "distinct ms" by simp
  from rm True og(1) remove_member_ok[OF ms]
  have gs: "gs = (if remove1 n ms = [] then AList.delete og (groups s)
                  else AList.update og (remove1 n ms) (groups s))"
    by simp
  note ing = in_group_removed[OF ms(1) d ms(2) gs]
  note mp = map_of_removed[OF ms(1) gs]
  have a: "in_group gs g t = has_group (tasks s) t g" if "g \<noteq> []" "t \<noteq> n" for g t
    using ing[of g t] invD1[OF inv that(1), of t] that(2) by simp
  have b: "\<not> in_group gs g n" if g: "g \<noteq> []" for g
  proof (cases "g = og")
    case True
    then show ?thesis using ing[of g n] by simp
  next
    case False
    with p pg have "\<not> has_group (tasks s) n g" by (simp add: has_group_def)
    with invD1[OF inv g, of n] ing[of g n] show ?thesis by simp
  qed
  have c: "map_of gs [] = None"
    using mp[of "[]"] og(2) invD2[OF inv] by simp
  have e: "distinct ms' \<and> ms' \<noteq> []" if m: "map_of gs g = Some ms'" for g ms'
  proof (cases "g = og")
    case False
    with m mp[of g] have "map_of (groups s) g = Some ms'" by simp
    then show ?thesis by (rule invD3[OF inv])
  next
    case True
    with m mp[of g] have "ms' = remove1 n ms \<and> remove1 n ms \<noteq> []"
      by (auto split: if_splits)
    with d show ?thesis by (simp add: distinct_remove1)
  qed
  from a b c e show ?thesis by blast
qed

lemma scheduler_update_swap:
  "s\<lparr>groups := G, tasks := T\<rparr> = s\<lparr>tasks := T, groups := G\<rparr>"
  by (cases s) simp

lemma edit_group_fails:
  "edit_group n p v s = (Inl e, s1) \<Longrightarrow> s1 = s"
  by (auto simp add: edit_group_def Let_def split: if_splits sum.splits)

lemma invariant_edit_group:
  assumes inv: "group_invariant s" and p: "map_of (tasks s) n = Some p"
    and eg: "edit_group n p v s = (Inr u, s1)"
  shows "group_invariant (s1\<lparr>tasks := AList.update n (p(''group'' \<mapsto> v)) (tasks s1)\<rparr>)"
proof -
  define old where "old = (case p ''group'' of None \<Rightarrow> VNone | Some v \<Rightarrow> v)"
  define r where
    "r = (if truthy old then remove_member (str_of old) n (groups s) else Inr (groups s))"
  have eq: "edit_group n p v s
      = (if \<not> (group_typed old \<and> group_typed v) then (Inl OutOfModel, s)
         else (case r of
                 Inl e \<Rightarrow> (Inl e, s)
               | Inr gs \<Rightarrow>
                   (Inr (), s\<lparr>groups := (if truthy v then add_member (str_of v) n gs
                                           else gs)\<rparr>)))"
    by (simp add: edit_group_def Let_def old_def r_def)
  from eg eq have typed: "group_typed old" "group_typed v"
    by (auto split: if_splits)
  from eg eq typed obtain gs where gs: "r = Inr gs"
    and s1: "s1 = s\<lparr>groups := (if truthy v then add_member (str_of v) n gs else gs)\<rparr>"
    by (cases r) auto
  from detach_from_old_group[OF inv p old_def typed(1) gs[unfolded r_def]]
  have a: "\<And>g t. g \<noteq> [] \<Longrightarrow> t \<noteq> n \<Longrightarrow> in_group gs g t = has_group (tasks s) t g"
    and b: "\<And>g. g \<noteq> [] \<Longrightarrow> \<not> in_group gs g n"
    and c: "map_of gs [] = None"
    and d: "\<And>g ms. map_of gs g = Some ms \<Longrightarrow> distinct ms \<and> ms \<noteq> []"
    by blast+
  let ?p = "p(''group'' \<mapsto> v)"
  show ?thesis
  proof (cases "truthy v")
    case False
    have "?p ''group'' \<noteq> Some (VStr g)" if "g \<noteq> []" for g
      using falsy_not_group[OF False that] by simp
    with a b c d
    have "group_invariant (s\<lparr>tasks := AList.update n ?p (tasks s), groups := gs\<rparr>)"
      by (rule invariant_store_ungrouped)
    with False show ?thesis by (simp add: s1 scheduler_update_swap)
  next
    case True
    from truthy_group_typed[OF typed(2) True] obtain g where g: "v = VStr g" "g \<noteq> []"
      by blast
    have "?p ''group'' = Some (VStr g)" by (simp add: g(1))
    with a b c d
    have "group_invariant
            (s\<lparr>tasks := AList.update n ?p (tasks s), groups := add_member g n gs\<rparr>)"
      using g(2) by (rule invariant_store_grouped)
    with True g(1) show ?thesis by (simp add: s1 scheduler_update_swap)
  qed
qed

lemma invariant_edit_loop:
  "group_invariant s \<Longrightarrow> group_invariant (snd (edit_loop n ups s))"
proof (induction ups arbitrary: s)
  case Nil
  then show ?case by simp
next
  case (Cons pv ups)
  obtain key v where pv: "pv = (key, v)" by (cases pv)
  show ?case
  proof (cases "map_of (tasks s) n")
    case None
    with Cons.prems show ?thesis by (simp add: pv)
  next
    case (Some p)
    show ?thesis
    proof (cases "p key = None")
      case True
      with Some Cons.prems show ?thesis by (simp add: pv)
    next
      case False
      then obtain y where present: "p key = Some y" by auto
      show ?thesis
      proof (cases "key = ''group''")
        case True
        obtain r s1 where eg: "edit_group n p v s = (r, s1)" by (cases "edit_group n p v s")
        show ?thesis
        proof (cases r)
          case (Inl e)
          with eg have "s1 = s" by (simp add: edit_group_fails)
          with Some present True eg Inl Cons.prems show ?thesis by (simp add: pv)
        next
          case (Inr u)
          from invariant_edit_group[OF Cons.prems Some eg[unfolded Inr]]
          have "group_invariant
                  (snd (edit_loop n ups
                     (s1\<lparr>tasks := AList.update n (p(''group'' \<mapsto> v)) (tasks s1)\<rparr>)))"
            by (rule Cons.IH)
          with Some present True eg Inr show ?thesis by (simp add: pv)
        qed
      next
        case other: False
        show ?thesis
        proof (cases "key \<in> set [''delay'', ''interval'', ''jitter'']")
          case timing: True
          show ?thesis
          proof (cases "parse_time_val v")
            case (Inl e)
            with Some present other timing Cons.prems show ?thesis by (simp add: pv)
          next
            case (Inr x)
            from invariant_other_prop[OF Cons.prems Some other]
            have "group_invariant
                    (snd (edit_loop n ups
                       (s\<lparr>tasks := AList.update n (p(key \<mapsto> VFloat x)) (tasks s)\<rparr>)))"
              by (rule Cons.IH)
            with Some present other timing Inr show ?thesis by (simp add: pv)
          qed
        next
          case False
          from invariant_other_prop[OF Cons.prems Some other]
          have "group_invariant
                  (snd (edit_loop n ups
                     (s\<lparr>tasks := AList.update n (p(key \<mapsto> v)) (tasks s)\<rparr>)))"
            by (rule Cons.IH)
          with Some present other False show ?thesis by (simp add: pv)
        qed
      qed
    qed
  qed
qed

lemma invariant_edit: "group_invariant s \<Longrightarrow> group_invariant (snd (edit n ups s))"
  by (simp add: edit_def invariant_edit_loop)

lemma invariant_register_every:
  "group_invariant s \<Longrightarrow> group_invariant (snd (register_every i d j l lg g n s))"
  by (cases "every i d j l lg g") (simp_all add: register_every_def invariant_decorator_every)

subsection \<open>Targets of \<^verbatim>\<open>run\<close>, and the group invariant\<close>







text \<open>
  Claim C4 as stated fails for the empty group name: \<^verbatim>\<open>every("1s", group="")\<close> stores the
  group \<^verbatim>\<open>""\<close> in the record, and \<^verbatim>\<open>if group:\<close> keeps the task out of the index, so the
  record has \<^verbatim>\<open>group == ""\<close> while no \<^verbatim>\<open>groups[""]\<close> holds the task.
\<close>

theorem group_agreement_empty_name:
  "\<not> group_agreement (snd (register_every ''1s'' None None None False (Some []) ''job'' init))"
proof -
  have e: "every ''1s'' None None None False (Some [])
      = Inr \<lparr>e_interval = Fin 1, e_delay = VInt 0, e_jitter = VInt 0, e_limit = None,
             e_log = False, e_group = Some []\<rparr>"
    by (simp add: every_def parse_optional_def parser_eval)
  let ?s = "snd (register_every ''1s'' None None None False (Some []) ''job'' init)"
  have g: "groups ?s = []"
    by (simp add: register_every_def e decorator_every_def init_def)
  have t: "has_group (tasks ?s) ''job'' []"
    by (simp add: register_every_def e decorator_every_def init_def has_group_def
        periodic_record_def opt_val_def)
  have "\<not> in_group (groups ?s) [] ''job''" by (simp add: g in_group_def)
  with t show ?thesis unfolding group_agreement_def by blast
qed

text \<open>
  Claim C4, amended. The agreement between the records and the index for every non-empty
  group name (with the index free of an empty name, of empty groups and of repeated
  members) holds for the new scheduler and is kept by every periodic registration, with
  or without a group, by every \<^verbatim>\<open>edit\<close>, whatever keys it changes and also when it stops at
  an error half-way, and by \<^verbatim>\<open>pause\<close>, \<^verbatim>\<open>resume\<close> and \<^verbatim>\<open>stop\<close>. An empty group name counts as no
  group: it is stored in the record and never enters the index.
\<close>

theorem group_invariant_preserved:
  "group_invariant init
   \<and> (group_invariant s \<longrightarrow>
        (\<forall>g t. g \<noteq> [] \<longrightarrow> in_group (groups s) g t = has_group (tasks s) t g)
      \<and> group_invariant (snd (decorator_every a n s))
      \<and> group_invariant (snd (register_every i d j l lg grp n s))
      \<and> group_invariant (snd (edit n ups s))
      \<and> group_invariant (snd (pause n s))
      \<and> group_invariant (snd (resume n s))
      \<and> group_invariant (snd (stop n s)))"
  using invariant_init invD1[of s] invariant_decorator_every[of s a n]
    invariant_register_every[of s i d j l lg grp n] invariant_edit[of s n ups]
    invariant_set_state[of s n]
  unfolding pause_def resume_def stop_def by blast

theorem group_invariant_preserved_witness:
  "group_invariant init
   \<and> group_invariant demo1
   \<and> group_invariant demo2
   \<and> groups demo2 = [(''g'', [''job'', ''sync''])]
   \<and> group_invariant (snd (edit ''job'' [(''group'', VStr ''h'')] demo2))
   \<and> groups (snd (edit ''job'' [(''group'', VStr ''h'')] demo2))
       = [(''g'', [''sync'']), (''h'', [''job''])]
   \<and> groups (snd (edit ''sync'' [(''group'', VStr ''h'')]
                (snd (edit ''job'' [(''group'', VStr ''h'')] demo2))))
       = [(''h'', [''job'', ''sync''])]"
proof -
  have i: "group_invariant init"
    using group_invariant_preserved[where s = init] by simp
  have d1: "group_invariant demo1"
    using i group_invariant_preserved[where s = init and i = "''1s''" and d = None
        and j = None and l = "Some 3" and lg = False and grp = "Some ''g''" and n = "''job''"]
    unfolding demo1_def by blast
  have d2: "group_invariant demo2"
    using d1 group_invariant_preserved[where s = demo1 and i = "''2m''" and d = None
        and j = None and l = None and lg = False and grp = "Some ''g''" and n = "''sync''"]
    unfolding demo2_def by blast
  have e: "group_invariant (snd (edit ''job'' [(''group'', VStr ''h'')] demo2))"
    using d2 group_invariant_preserved[where s = demo2 and n = "''job''"
        and ups = "[(''group'', VStr ''h'')]"]
    by blast
  have g: "groups demo2 = [(''g'', [''job'', ''sync''])]" by (simp add: demo2_eq)
  have m1: "edit ''job'' [(''group'', VStr ''h'')] demo2
      = (Inr (), \<lparr>tasks = [(''job'', (periodic_record job_args ''job'')
                                      (''group'' \<mapsto> VStr ''h'')),
                           (''sync'', periodic_record sync_args ''sync'')],
                  groups = [(''g'', [''sync'']), (''h'', [''job''])]\<rparr>)"
    by (simp add: demo2_eq edit_def edit_group_def remove_member_def add_member_def
        periodic_record_def job_args_def sync_args_def opt_val_def Let_def)
  have m2: "groups (snd (edit ''sync'' [(''group'', VStr ''h'')]
                (snd (edit ''job'' [(''group'', VStr ''h'')] demo2))))
       = [(''h'', [''job'', ''sync''])]"
    unfolding m1
    by (simp add: edit_def edit_group_def remove_member_def add_member_def
        periodic_record_def sync_args_def job_args_def opt_val_def Let_def)
  from i d1 d2 e g m1 m2 show ?thesis by simp
qed

subsection \<open>The task executors\<close>

































end
